theory Spec2Isabelle
  imports Main "HOL-Library.Multiset"
begin

section \<open>The memory-match game hook \<open>useGameLogic\<close>\<close>

text \<open>
  The hook \<^verbatim>\<open>useGameLogic\<close> (hooks/useGameLogic.js) owns one React state object
  \<^verbatim>\<open>gameState\<close>, two event handlers (\<^verbatim>\<open>handleCardClick\<close>, \<^verbatim>\<open>restartGame\<close>), two effects
  (the end-of-game check and the match check) and the callbacks it hands to
  \<^verbatim>\<open>setTimeout\<close>. The embedding keeps the state object as a record, every
  \<^verbatim>\<open>setGameState(prev => ...)\<close> updater as a function on that record, and React's
  render/effect cycle as an explicit loop over a world that also holds the pending
  timers.
\<close>

subsection \<open>Data\<close>

datatype status = Playing | Won | Lost

text \<open>\<^verbatim>\<open>card.isFlipped\<close> on the \<^verbatim>\<open>undefined\<close> that \<^verbatim>\<open>Array.prototype.find\<close> returns
  raises a \<^verbatim>\<open>TypeError\<close>; it is the only exception the hook can raise.\<close>

datatype error = TypeError

text \<open>A card object \<^verbatim>\<open>{ id, flavour, isFlipped, isMatched }\<close>. The field \<^verbatim>\<open>id\<close> is named
  \<open>card_id\<close> here.\<close>

record card =
  card_id :: nat
  flavour :: string
  isFlipped :: bool
  isMatched :: bool

record gameState =
  cards :: "card list"
  selectedCards :: "nat list"
  attempts :: nat
  gameStatus :: status
  isChecking :: bool

subsection \<open>Constants and helpers imported by the hook\<close>

text \<open>Modelled from the spec: the constant \<^verbatim>\<open>MAX_ATTEMPTS\<close> of utils/constants.js, which
  is not among the sources. The spec fixes the attempt budget at 15.\<close>

definition MAX_ATTEMPTS :: nat where
  "MAX_ATTEMPTS = 15"

text \<open>Modelled from the spec: the table \<^verbatim>\<open>FLAVOURS\<close> of utils/constants.js, which is not
  among the sources. The spec has 6 distinct symbols; the keys are those of the design
  document, and each emoji value is written as the name of its code point.\<close>

definition FLAVOURS :: "(string \<times> string) list" where
  "FLAVOURS =
     [(''chocolate'', ''U+1F36B''), (''vanilla'', ''U+1F366''), (''strawberry'', ''U+1F353''),
      (''mint'', ''U+1F33F''), (''coffee'', ''U+2615''), (''lemon'', ''U+1F34B'')]"

text \<open>Modelled from the spec: \<^verbatim>\<open>shuffleArray\<close> of utils/gameHelpers.js, which is not among
  the sources. The spec asks for a uniformly random permutation. The random draws are the
  argument \<open>rs\<close> (a missing draw counts as 0): each element is inserted at the drawn
  position of the shuffled rest, so every list of draws gives a permutation and every
  permutation comes from some list of draws.\<close>

fun shuffleArray :: "nat list \<Rightarrow> 'a list \<Rightarrow> 'a list" where
  "shuffleArray rs [] = []"
| "shuffleArray rs (x # xs) =
     (let ys = shuffleArray (tl rs) xs;
          i = (case rs of [] \<Rightarrow> 0 | r # _ \<Rightarrow> r) mod (length ys + 1)
      in take i ys @ x # drop i ys)"

subsection \<open>\<^verbatim>\<open>initializeGame\<close>\<close>

text \<open>Modelled from the spec: \<^verbatim>\<open>generateId\<close> of utils/gameHelpers.js, which is not among
  the sources. The spec asks for unique identifiers: the model is a counter, and the
  \<open>n\<close> below is its value when \<^verbatim>\<open>initializeGame\<close> starts. The \<^verbatim>\<open>flatMap\<close> over
  \<^verbatim>\<open>Object.entries(FLAVOURS)\<close> makes two cards for each entry, in the order of the
  entries, and calls \<^verbatim>\<open>generateId\<close> once for each card.\<close>

fun cardPairs :: "nat \<Rightarrow> (string \<times> string) list \<Rightarrow> card list" where
  "cardPairs n [] = []"
| "cardPairs n ((name, emoji) # fs) =
     \<lparr>card_id = n, flavour = emoji, isFlipped = False, isMatched = False\<rparr> #
     \<lparr>card_id = Suc n, flavour = emoji, isFlipped = False, isMatched = False\<rparr> #
     cardPairs (Suc (Suc n)) fs"

definition initializeGame :: "nat list \<Rightarrow> nat \<Rightarrow> gameState" where
  "initializeGame rs n =
     \<lparr>cards = shuffleArray rs (cardPairs n FLAVOURS),
      selectedCards = [],
      attempts = 0,
      gameStatus = Playing,
      isChecking = False\<rparr>"

subsection \<open>The state updaters\<close>

text \<open>Each function below is one \<^verbatim>\<open>setGameState(prev => ...)\<close> updater of the
  source; \<open>prev\<close> is the state React passes to it.\<close>

text \<open>\<^verbatim>\<open>flipCard\<close>.\<close>

definition flipCard :: "nat \<Rightarrow> gameState \<Rightarrow> gameState" where
  "flipCard cardId prev =
     prev\<lparr>cards := map (\<lambda>c. if card_id c = cardId then c\<lparr>isFlipped := True\<rparr> else c) (cards prev),
          selectedCards := selectedCards prev @ [cardId]\<rparr>"

text \<open>The first updater of \<^verbatim>\<open>checkForMatch\<close>.\<close>

definition startCheck :: "gameState \<Rightarrow> gameState" where
  "startCheck prev = prev\<lparr>isChecking := True, attempts := attempts prev + 1\<rparr>"

text \<open>The updater of the branch \<^verbatim>\<open>// Match found\<close>.\<close>

definition markMatched :: "nat \<Rightarrow> nat \<Rightarrow> gameState \<Rightarrow> gameState" where
  "markMatched firstCardId secondCardId prev =
     prev\<lparr>cards := map (\<lambda>c. if card_id c = firstCardId \<or> card_id c = secondCardId
                              then c\<lparr>isMatched := True\<rparr> else c) (cards prev),
          selectedCards := [],
          isChecking := False\<rparr>"

text \<open>The updater inside the \<^verbatim>\<open>setTimeout\<close> callback of the branch \<^verbatim>\<open>// No match\<close>.\<close>

definition flipBack :: "nat \<Rightarrow> nat \<Rightarrow> gameState \<Rightarrow> gameState" where
  "flipBack firstCardId secondCardId prev =
     prev\<lparr>cards := map (\<lambda>c. if card_id c = firstCardId \<or> card_id c = secondCardId
                              then c\<lparr>isFlipped := False\<rparr> else c) (cards prev),
          selectedCards := [],
          isChecking := False\<rparr>"

subsection \<open>\<^verbatim>\<open>checkForMatch\<close>\<close>

text \<open>
  \<open>g\<close> is the state of the render whose closure \<^verbatim>\<open>checkForMatch\<close> is (it reads
  \<^verbatim>\<open>gameState.selectedCards\<close> and \<^verbatim>\<open>gameState.cards\<close>), \<open>prev\<close> the state its updaters
  are applied to. The result is the updated state, the timer callbacks it scheduled
  (each is the pair of identifiers its closure holds) and whether the updaters replaced
  the arrays \<^verbatim>\<open>cards\<close> and \<^verbatim>\<open>selectedCards\<close> by new ones. A destructured identifier
  that is \<^verbatim>\<open>undefined\<close>, or one that no card has, makes \<^verbatim>\<open>find\<close> return \<^verbatim>\<open>undefined\<close>,
  and reading \<^verbatim>\<open>.flavour\<close> of it raises.
\<close>

definition checkForMatch ::
    "gameState \<Rightarrow> gameState \<Rightarrow> error + gameState \<times> (nat \<times> nat) list \<times> bool" where
  "checkForMatch g prev =
     (case selectedCards g of
        firstCardId # secondCardId # _ \<Rightarrow>
          (case find (\<lambda>c. card_id c = firstCardId) (cards g) of
             None \<Rightarrow> Inl TypeError
           | Some firstCard \<Rightarrow>
               (case find (\<lambda>c. card_id c = secondCardId) (cards g) of
                  None \<Rightarrow> Inl TypeError
                | Some secondCard \<Rightarrow>
                    if flavour firstCard = flavour secondCard
                    then Inr (markMatched firstCardId secondCardId (startCheck prev), [], True)
                    else Inr (startCheck prev, [(firstCardId, secondCardId)], False)))
      | _ \<Rightarrow> Inl TypeError)"

subsection \<open>The effects and the render cycle\<close>

text \<open>The effect \<^verbatim>\<open>// Check for game end conditions\<close>: \<open>g\<close> is the state of the render,
  \<open>gameEndFires g\<close> says that the effect calls \<^verbatim>\<open>setGameState\<close>, and \<open>gameEndEffect g prev\<close>
  applies its updater, which only writes \<^verbatim>\<open>gameStatus\<close>.\<close>

definition gameEndFires :: "gameState \<Rightarrow> bool" where
  "gameEndFires g \<longleftrightarrow>
     gameStatus g = Playing \<and> (list_all isMatched (cards g) \<or> MAX_ATTEMPTS \<le> attempts g)"

definition gameEndEffect :: "gameState \<Rightarrow> gameState \<Rightarrow> gameState" where
  "gameEndEffect g prev =
     (if gameStatus g \<noteq> Playing then prev
      else if list_all isMatched (cards g) then prev\<lparr>gameStatus := Won\<rparr>
      else if MAX_ATTEMPTS \<le> attempts g then prev\<lparr>gameStatus := Lost\<rparr>
      else prev)"

text \<open>
  The world: the committed state, the queue of pending \<^verbatim>\<open>setTimeout\<close> callbacks (all
  have the delay \<^verbatim>\<open>FLIP_BACK_DELAY\<close>, so they fire in the order they were scheduled) and
  the counter behind \<^verbatim>\<open>generateId\<close>.
\<close>

record world =
  game :: gameState
  timers :: "(nat \<times> nat) list"
  nextId :: nat

text \<open>
  One pass of the effects after a render of \<open>game w\<close>. \<open>changed\<close> says that the arrays
  \<^verbatim>\<open>selectedCards\<close> or \<^verbatim>\<open>cards\<close> are new objects since the last render, which are the
  dependencies of the effect \<^verbatim>\<open>// Check for matches when two cards are selected\<close> (through
  \<^verbatim>\<open>checkForMatch\<close>). The end-of-game effect depends on every value it reads and its
  updater is idempotent, so it is run in every pass. The updaters the two effects queue
  are applied in the order of the effects. The result says whether an updater was
  queued (React renders again), whether the arrays were replaced, and the new world.
\<close>

definition effectsPass :: "bool \<Rightarrow> world \<Rightarrow> error + bool \<times> bool \<times> world" where
  "effectsPass changed w =
     (let g = game w; q = gameEndEffect g g in
      if changed \<and> length (selectedCards g) = 2
      then (case checkForMatch g q of
              Inl e \<Rightarrow> Inl e
            | Inr (q', scheduled, replaced) \<Rightarrow>
                Inr (True, replaced, w\<lparr>game := q', timers := timers w @ scheduled\<rparr>))
      else Inr (gameEndFires g, False, w\<lparr>game := q\<rparr>))"

text \<open>A pass that queues an update can be followed only by a pass whose match effect
  stays idle, and the end-of-game effect fires at most once.\<close>

definition passesLeft :: "bool \<times> world \<Rightarrow> nat" where
  "passesLeft p =
     (if fst p \<and> length (selectedCards (game (snd p))) = 2 then 2 else 0) +
     (if gameStatus (game (snd p)) = Playing then 1 else 0)"

text \<open>React renders and runs the effects until no effect queues an update.\<close>

function rerender :: "bool \<Rightarrow> world \<Rightarrow> error + world" where
  "rerender changed w =
     (case effectsPass changed w of
        Inl e \<Rightarrow> Inl e
      | Inr (queued, changed', w') \<Rightarrow> if queued then rerender changed' w' else Inr w')"
  by pat_completeness auto
termination
proof (relation "measure passesLeft")
  show "wf (measure passesLeft)"
    by simp
next
  fix changed w r queued r' changed' w'
  assume pass: "effectsPass changed w = Inr r" "(queued, r') = r" "(changed', w') = r'" queued
  show "((changed', w'), (changed, w)) \<in> measure passesLeft"
  proof (cases "changed \<and> length (selectedCards (game w)) = 2")
    case True
    with pass obtain q' scheduled where
      c: "checkForMatch (game w) (gameEndEffect (game w) (game w)) = Inr (q', scheduled, changed')"
      and w': "w' = w\<lparr>game := q', timers := timers w @ scheduled\<rparr>"
      by (auto simp: effectsPass_def Let_def split: sum.splits prod.splits)
    from c have "changed' \<longrightarrow> selectedCards q' = []"
      by (auto simp: checkForMatch_def markMatched_def split: list.splits option.splits if_splits)
    with True w' show ?thesis
      by (auto simp: passesLeft_def)
  next
    case False
    with pass have fires: "gameEndFires (game w)" and ch: "changed' = False"
      and w': "w' = w\<lparr>game := gameEndEffect (game w) (game w)\<rparr>"
      by (auto simp: effectsPass_def Let_def)
    from fires have "gameStatus (game w) = Playing"
      and "gameStatus (gameEndEffect (game w) (game w)) \<noteq> Playing"
      by (auto simp: gameEndFires_def gameEndEffect_def)
    with ch w' show ?thesis
      by (simp add: passesLeft_def)
  qed
qed

declare rerender.simps [simp del]

subsection \<open>The event handlers\<close>

text \<open>\<^verbatim>\<open>handleCardClick\<close>: \<open>Inr None\<close> is a return without a call of \<^verbatim>\<open>setGameState\<close>,
  \<open>Inr (Some g')\<close> the state after the updater of \<^verbatim>\<open>flipCard\<close>.\<close>

definition handleCardClick :: "gameState \<Rightarrow> nat \<Rightarrow> error + gameState option" where
  "handleCardClick g cardId =
     (if isChecking g \<or> 2 \<le> length (selectedCards g) \<or> gameStatus g \<noteq> Playing then Inr None
      else case find (\<lambda>c. card_id c = cardId) (cards g) of
             None \<Rightarrow> Inl TypeError
           | Some c \<Rightarrow>
               if isFlipped c \<or> isMatched c then Inr None
               else Inr (Some (flipCard cardId g)))"

text \<open>\<^verbatim>\<open>restartGame\<close>: the new state is \<^verbatim>\<open>initializeGame()\<close>; nothing else is touched.\<close>

definition restartGame :: "nat list \<Rightarrow> world \<Rightarrow> world" where
  "restartGame rs w =
     w\<lparr>game := initializeGame rs (nextId w), nextId := nextId w + 2 * length FLAVOURS\<rparr>"

text \<open>
  What can happen to the mounted hook: a call of \<^verbatim>\<open>handleCardClick\<close>, a call of
  \<^verbatim>\<open>restartGame\<close> (with the draws of its shuffle), or the oldest pending timer firing.
  An exception in a handler leaves the state as it was; \<open>Timeout\<close> with no pending timer
  is no event at all.
\<close>

datatype event = Click nat | Restart "nat list" | Timeout

fun step :: "world \<Rightarrow> event \<Rightarrow> error + world" where
  "step w (Click cardId) =
     (case handleCardClick (game w) cardId of
        Inl e \<Rightarrow> Inl e
      | Inr None \<Rightarrow> Inr w
      | Inr (Some g') \<Rightarrow> rerender True (w\<lparr>game := g'\<rparr>))"
| "step w (Restart rs) = rerender True (restartGame rs w)"
| "step w Timeout =
     (case timers w of
        [] \<Rightarrow> Inr w
      | (firstCardId, secondCardId) # ts \<Rightarrow>
          rerender True (w\<lparr>game := flipBack firstCardId secondCardId (game w), timers := ts\<rparr>))"

text \<open>Mounting the hook: \<^verbatim>\<open>useState(initializeGame)\<close>, then the effects of the first
  render.\<close>

definition mount :: "nat list \<Rightarrow> error + world" where
  "mount rs =
     rerender True
       \<lparr>game = initializeGame rs 0, timers = [], nextId = 2 * length FLAVOURS\<rparr>"

text \<open>A sequence of events; it stops at the first exception.\<close>

fun run :: "world \<Rightarrow> event list \<Rightarrow> error + world" where
  "run w [] = Inr w"
| "run w (e # es) = (case step w e of Inl err \<Rightarrow> Inl err | Inr w' \<Rightarrow> run w' es)"

text \<open>The worlds the mounted hook can be in.\<close>

inductive reachable :: "world \<Rightarrow> bool" where
  reachable_mount: "mount rs = Inr w \<Longrightarrow> reachable w"
| reachable_step: "reachable w \<Longrightarrow> step w e = Inr w' \<Longrightarrow> reachable w'"

subsection \<open>Sessions and concrete plays\<close>

text \<open>A fresh session: 12 cards, two for each of the symbols of \<open>FLAVOURS\<close>, none
  flipped or matched, no attempt made, nothing selected, the game being played.\<close>

definition freshSession :: "gameState \<Rightarrow> bool" where
  "freshSession g \<longleftrightarrow>
     length (cards g) = 12 \<and>
     list_all (\<lambda>e. length (filter (\<lambda>c. flavour c = e) (cards g)) = 2) (map snd FLAVOURS) \<and>
     list_all (\<lambda>c. \<not> isFlipped c \<and> \<not> isMatched c) (cards g) \<and>
     attempts g = 0 \<and> gameStatus g = Playing \<and> selectedCards g = [] \<and> \<not> isChecking g"

text \<open>What identifies a card: its \<^verbatim>\<open>id\<close> and its symbol.\<close>

definition cardIdentity :: "card \<Rightarrow> nat \<times> string" where
  "cardIdentity c = (card_id c, flavour c)"

text \<open>Mounting the hook with the draws \<open>rs\<close> and letting the events \<open>es\<close> happen.\<close>

definition play :: "nat list \<Rightarrow> event list \<Rightarrow> error + world" where
  "play rs es = (case mount rs of Inl e \<Rightarrow> Inl e | Inr w \<Rightarrow> run w es)"

text \<open>With no draws the deck stays in the order of \<open>cardPairs\<close>: the cards 0 and 1 share
  a symbol, the cards 0 and 2 do not. \<open>worldAfter es\<close> is the world of that game after the
  events \<open>es\<close> (the just mounted world, should an event raise).\<close>

definition worldAfter :: "event list \<Rightarrow> world" where
  "worldAfter es =
     (case play [] es of
        Inr w \<Rightarrow> w
      | Inl e \<Rightarrow> \<lparr>game = initializeGame [] 0, timers = [], nextId = 2 * length FLAVOURS\<rparr>)"

text \<open>One failed attempt and its reversion; fourteen of them followed by the two clicks of
  a fifteenth failed attempt, whose reversion is still pending; and the six matches that
  win the game.\<close>

definition mismatchRound :: "event list" where
  "mismatchRound = [Click 0, Click 2, Timeout]"

definition lastMismatch :: "event list" where
  "lastMismatch = concat (replicate 14 mismatchRound) @ [Click 0, Click 2]"

definition sixMatches :: "event list" where
  "sixMatches = map Click [0, 1, 2, 3, 4, 5, 6, 7, 8, 9, 10, 11]"

text \<open>Nine failed attempts and then the six matches: the game is won with the fifteenth
  attempt. \<open>lastMatchRender\<close> is the state React renders after the updaters of that last
  \<^verbatim>\<open>checkForMatch\<close>, before the effects of the render have run.\<close>

definition lateWin :: "event list" where
  "lateWin = concat (replicate 9 mismatchRound) @ sixMatches"

definition lastMatchRender :: world where
  "lastMatchRender =
     (worldAfter (butlast lateWin))
       \<lparr>game := markMatched 10 11 (startCheck (flipCard 11 (game (worldAfter (butlast lateWin)))))\<rparr>"


section \<open>The render cycle in closed form\<close>

lemma gameEndEffect_settled: "\<not> gameEndFires (gameEndEffect g g)"
  by (simp add: gameEndFires_def gameEndEffect_def)

lemma gameEndEffect_idle: "\<not> gameEndFires g \<Longrightarrow> gameEndEffect g prev = prev"
  by (auto simp: gameEndFires_def gameEndEffect_def)

lemma gameEndEffect_finished: "gameStatus g \<noteq> Playing \<Longrightarrow> gameEndEffect g prev = prev"
  by (simp add: gameEndEffect_def)

lemma gameEndEffect_fields:
  "cards (gameEndEffect g prev) = cards prev"
  "selectedCards (gameEndEffect g prev) = selectedCards prev"
  "attempts (gameEndEffect g prev) = attempts prev"
  "isChecking (gameEndEffect g prev) = isChecking prev"
  by (simp_all add: gameEndEffect_def)

lemma rerender_idle:
  "rerender False w = Inr (w\<lparr>game := gameEndEffect (game w) (game w)\<rparr>)"
proof (cases "gameEndFires (game w)")
  case True
  have "rerender False (w\<lparr>game := gameEndEffect (game w) (game w)\<rparr>)
          = Inr (w\<lparr>game := gameEndEffect (game w) (game w)\<rparr>)"
    by (subst rerender.simps)
       (simp add: effectsPass_def Let_def gameEndEffect_settled gameEndEffect_idle)
  with True show ?thesis
    by (subst rerender.simps) (simp add: effectsPass_def Let_def)
next
  case False
  then show ?thesis
    by (subst rerender.simps) (simp add: effectsPass_def Let_def)
qed

lemma checkForMatch_replaced:
  "checkForMatch g q = Inr (q', scheduled, True) \<Longrightarrow> selectedCards q' = []"
  by (auto simp: checkForMatch_def markMatched_def split: list.splits option.splits if_splits)

lemma rerender_eq:
  "rerender changed w =
     (if changed \<and> length (selectedCards (game w)) = 2
      then (case checkForMatch (game w) (gameEndEffect (game w) (game w)) of
              Inl e \<Rightarrow> Inl e
            | Inr (q', scheduled, replaced) \<Rightarrow>
                Inr (w\<lparr>game := gameEndEffect q' q', timers := timers w @ scheduled\<rparr>))
      else Inr (w\<lparr>game := gameEndEffect (game w) (game w)\<rparr>))"
proof (cases "changed \<and> length (selectedCards (game w)) = 2")
  case False
  show ?thesis
  proof (cases "gameEndFires (game w)")
    case True
    with False show ?thesis
      by (subst rerender.simps)
         (auto simp: effectsPass_def Let_def rerender_idle gameEndEffect_settled gameEndEffect_idle)
  next
    case idle: False
    with False show ?thesis
      by (subst rerender.simps) (auto simp: effectsPass_def Let_def)
  qed
next
  case True
  show ?thesis
  proof (cases "checkForMatch (game w) (gameEndEffect (game w) (game w))")
    case (Inl e)
    with True show ?thesis
      by (subst rerender.simps) (simp add: effectsPass_def Let_def)
  next
    case (Inr r)
    obtain q' scheduled replaced where r: "r = (q', scheduled, replaced)"
      by (cases r) auto
    let ?w' = "w\<lparr>game := q', timers := timers w @ scheduled\<rparr>"
    have second: "rerender replaced ?w' = Inr (?w'\<lparr>game := gameEndEffect q' q'\<rparr>)"
    proof (cases replaced)
      case False
      then show ?thesis by (simp add: rerender_idle)
    next
      case True
      with Inr r have "selectedCards q' = []"
        by (auto dest: checkForMatch_replaced)
      then show ?thesis
        by (subst rerender.simps)
           (auto simp: effectsPass_def Let_def rerender_idle gameEndEffect_settled gameEndEffect_idle)
    qed
    from True Inr r second show ?thesis
      by (subst rerender.simps) (simp add: effectsPass_def Let_def)
  qed
qed

lemma rerender_no_pair:
  "length (selectedCards (game w)) \<noteq> 2 \<Longrightarrow>
     rerender changed w = Inr (w\<lparr>game := gameEndEffect (game w) (game w)\<rparr>)"
  by (simp add: rerender_eq)

lemma rerender_settled: "rerender changed w = Inr w' \<Longrightarrow> \<not> gameEndFires (game w')"
  by (auto simp: rerender_eq gameEndEffect_settled split: if_splits sum.splits prod.splits)

subsection \<open>What \<open>checkForMatch\<close> leaves alone\<close>

lemma checkForMatch_attempts:
  "checkForMatch g q = Inr (q', scheduled, replaced) \<Longrightarrow> attempts q' = attempts q + 1"
  by (auto simp: checkForMatch_def markMatched_def startCheck_def
           split: list.splits option.splits if_splits)

lemma checkForMatch_status:
  "checkForMatch g q = Inr (q', scheduled, replaced) \<Longrightarrow> gameStatus q' = gameStatus q"
  by (auto simp: checkForMatch_def markMatched_def startCheck_def
           split: list.splits option.splits if_splits)

lemma checkForMatch_identity:
  "checkForMatch g q = Inr (q', scheduled, replaced) \<Longrightarrow>
     map cardIdentity (cards q') = map cardIdentity (cards q)"
  by (auto simp: checkForMatch_def markMatched_def startCheck_def cardIdentity_def
           split: list.splits option.splits if_splits)

lemma rerender_attempts:
  "rerender changed w = Inr w' \<Longrightarrow>
     attempts (game w') =
       attempts (game w) + (if changed \<and> length (selectedCards (game w)) = 2 then 1 else 0)"
  by (auto simp: rerender_eq gameEndEffect_fields split: if_splits sum.splits prod.splits
           dest!: checkForMatch_attempts)

lemma rerender_identity:
  "rerender changed w = Inr w' \<Longrightarrow>
     map cardIdentity (cards (game w')) = map cardIdentity (cards (game w))"
  by (auto simp: rerender_eq gameEndEffect_fields split: if_splits sum.splits prod.splits
           dest!: checkForMatch_identity)

lemma checkForMatch_equal:
  assumes "selectedCards g = [a, b]"
    and "find (\<lambda>c. card_id c = a) (cards g) = Some ca"
    and "find (\<lambda>c. card_id c = b) (cards g) = Some cb"
  shows "checkForMatch g prev =
           (if flavour ca = flavour cb then Inr (markMatched a b (startCheck prev), [], True)
            else Inr (startCheck prev, [(a, b)], False))"
  using assms by (simp add: checkForMatch_def)

subsection \<open>The click handler\<close>

lemma handleCardClick_accepts:
  assumes "handleCardClick g cardId = Inr (Some g')"
  shows "g' = flipCard cardId g" and "gameStatus g = Playing" and "\<not> isChecking g"
    and "length (selectedCards g) < 2"
    and "\<exists>c\<in>set (cards g). card_id c = cardId \<and> \<not> isFlipped c \<and> \<not> isMatched c"
  using assms
  by (auto simp: handleCardClick_def find_Some_iff split: if_splits option.splits)

lemma flipCard_fields:
  "attempts (flipCard cardId g) = attempts g"
  "gameStatus (flipCard cardId g) = gameStatus g"
  "isChecking (flipCard cardId g) = isChecking g"
  "selectedCards (flipCard cardId g) = selectedCards g @ [cardId]"
  "map cardIdentity (cards (flipCard cardId g)) = map cardIdentity (cards g)"
  "map isMatched (cards (flipCard cardId g)) = map isMatched (cards g)"
  by (simp_all add: flipCard_def cardIdentity_def)

lemma flipBack_fields:
  "attempts (flipBack a b g) = attempts g"
  "gameStatus (flipBack a b g) = gameStatus g"
  "isChecking (flipBack a b g) = False"
  "selectedCards (flipBack a b g) = []"
  "map cardIdentity (cards (flipBack a b g)) = map cardIdentity (cards g)"
  "map isMatched (cards (flipBack a b g)) = map isMatched (cards g)"
  by (simp_all add: flipBack_def cardIdentity_def)

lemma list_all_isMatched_map: "list_all isMatched cs \<longleftrightarrow> list_all id (map isMatched cs)"
  by (simp add: list_all_iff)

lemma accepted_not_ended:
  assumes "handleCardClick g cardId = Inr (Some g')" and "\<not> gameEndFires g"
  shows "\<not> gameEndFires g'" and "attempts g < MAX_ATTEMPTS"
proof -
  from assms(1) have g': "g' = flipCard cardId g" and playing: "gameStatus g = Playing"
    and "\<exists>c\<in>set (cards g). \<not> isMatched c"
    by (auto dest: handleCardClick_accepts)
  then have "\<not> list_all isMatched (cards g)"
    by (auto simp: list_all_iff)
  then have "\<not> list_all isMatched (cards g')"
    unfolding g' list_all_isMatched_map [of "cards g"] list_all_isMatched_map [of "cards (flipCard cardId g)"]
    by (simp add: flipCard_fields)
  moreover from assms(2) playing show "attempts g < MAX_ATTEMPTS"
    by (auto simp: gameEndFires_def)
  ultimately show "\<not> gameEndFires g'"
    by (simp add: gameEndFires_def g' flipCard_fields)
qed

subsection \<open>Reachable worlds\<close>

lemma step_settled:
  assumes "step w e = Inr w'" and "\<not> gameEndFires (game w)"
  shows "\<not> gameEndFires (game w')"
proof (cases e)
  case (Click cardId)
  with assms show ?thesis
    by (auto split: sum.splits option.splits dest: rerender_settled)
next
  case (Restart rs)
  with assms show ?thesis
    by (auto dest: rerender_settled)
next
  case Timeout
  with assms show ?thesis
    by (auto split: list.splits dest: rerender_settled)
qed

lemma reachable_settled: "reachable w \<Longrightarrow> \<not> gameEndFires (game w)"
  by (induction rule: reachable.induct) (auto simp: mount_def dest: rerender_settled step_settled)

lemma run_reachable: "reachable w \<Longrightarrow> run w es = Inr w' \<Longrightarrow> reachable w'"
proof (induction es arbitrary: w)
  case Nil
  then show ?case by simp
next
  case (Cons e es)
  then show ?case
    by (auto split: sum.splits intro: reachable_step)
qed

lemma play_reachable: "play rs es = Inr w \<Longrightarrow> reachable w"
  by (auto simp: play_def split: sum.splits intro: reachable_mount run_reachable)

lemma step_attempts:
  assumes "step w e = Inr w'" and "\<not> gameEndFires (game w)"
  shows "(case e of
            Restart rs \<Rightarrow> attempts (game w') = 0
          | _ \<Rightarrow> attempts (game w) \<le> attempts (game w') \<and>
                 (attempts (game w') = attempts (game w) \<or>
                  attempts (game w) < MAX_ATTEMPTS \<and> attempts (game w') = attempts (game w) + 1))"
proof (cases e)
  case (Click cardId)
  show ?thesis
  proof (cases "handleCardClick (game w) cardId")
    case (Inl err)
    with assms Click show ?thesis by simp
  next
    case (Inr r)
    show ?thesis
    proof (cases r)
      case None
      with assms Click Inr show ?thesis by simp
    next
      case (Some g')
      with assms Click Inr have r: "rerender True (w\<lparr>game := g'\<rparr>) = Inr w'"
        by simp
      from Inr Some assms(2) have "attempts (game w) < MAX_ATTEMPTS" and "g' = flipCard cardId (game w)"
        by (auto dest: accepted_not_ended handleCardClick_accepts)
      with rerender_attempts [OF r] Click show ?thesis
        by (auto simp: flipCard_fields)
    qed
  qed
next
  case (Restart rs)
  with assms have "rerender True (restartGame rs w) = Inr w'"
    by simp
  from rerender_attempts [OF this] Restart show ?thesis
    by (simp add: restartGame_def initializeGame_def)
next
  case Timeout
  show ?thesis
  proof (cases "timers w")
    case Nil
    with assms Timeout show ?thesis by simp
  next
    case (Cons t ts)
    obtain a b where t: "t = (a, b)" by (cases t)
    with assms Timeout Cons
    have "rerender True (w\<lparr>game := flipBack a b (game w), timers := ts\<rparr>) = Inr w'"
      by simp
    from rerender_attempts [OF this] Timeout show ?thesis
      by (simp add: flipBack_fields)
  qed
qed

lemma reachable_attempts: "reachable w \<Longrightarrow> attempts (game w) \<le> MAX_ATTEMPTS"
proof (induction rule: reachable.induct)
  case (reachable_mount rs w)
  then have "attempts (game w) = 0"
    by (auto simp: mount_def initializeGame_def dest!: rerender_attempts)
  then show ?case by simp
next
  case (reachable_step w e w')
  from step_attempts [OF reachable_step(2) reachable_settled [OF reachable_step(1)]]
    reachable_step(3)
  show ?case
    by (cases e) auto
qed








subsection \<open>Card identities\<close>

lemma identity_projections:
  "map cardIdentity cs = map cardIdentity cs' \<Longrightarrow>
     map card_id cs = map card_id cs' \<and> map flavour cs = map flavour cs' \<and> length cs = length cs'"
proof -
  assume eq: "map cardIdentity cs = map cardIdentity cs'"
  have "map card_id cs = map fst (map cardIdentity cs)"
    and "map card_id cs' = map fst (map cardIdentity cs')"
    and "map flavour cs = map snd (map cardIdentity cs)"
    and "map flavour cs' = map snd (map cardIdentity cs')"
    by (simp_all add: cardIdentity_def comp_def)
  with eq map_eq_imp_length_eq [OF eq] show ?thesis
    by simp
qed

subsection \<open>The shuffle and the fresh deck\<close>

lemma filter_insert_at:
  "length (filter P (take i ys @ x # drop i ys)) = length (filter P (x # ys))"
proof -
  have "length (filter P (take i ys)) + length (filter P (drop i ys)) = length (filter P ys)"
    by (metis append_take_drop_id filter_append length_append)
  then show ?thesis
    by simp
qed

lemma set_insert_at: "set (take i ys @ x # drop i ys) = insert x (set ys)"
proof -
  have "set (take i ys) \<union> set (drop i ys) = set ys"
    by (metis append_take_drop_id set_append)
  then show ?thesis
    by auto
qed

lemma shuffleArray_filter:
  "length (filter P (shuffleArray rs xs)) = length (filter P xs)"
  by (induction xs arbitrary: rs) (simp_all add: Let_def filter_insert_at del: filter_append)

lemma shuffleArray_length: "length (shuffleArray rs xs) = length xs"
  using shuffleArray_filter [of "\<lambda>_. True" rs xs] by simp

lemma shuffleArray_set: "set (shuffleArray rs xs) = set xs"
  by (induction xs arbitrary: rs) (simp_all add: Let_def set_insert_at del: set_append)

lemma shuffleArray_all: "list_all P (shuffleArray rs xs) = list_all P xs"
  by (simp add: list_all_iff shuffleArray_set)

text \<open>The shuffle returns a permutation, and every permutation is the outcome of some
  draws.\<close>

lemma shuffleArray_mset: "mset (shuffleArray rs xs) = mset xs"
proof (induction xs arbitrary: rs)
  case Nil
  show ?case by simp
next
  case (Cons x xs)
  have "mset (take i ys) + mset (drop i ys) = mset ys" for i and ys :: "'a list"
    by (metis append_take_drop_id mset_append)
  with Cons show ?case
    by (simp add: Let_def)
qed

lemma shuffleArray_any: "mset ys = mset xs \<Longrightarrow> \<exists>rs. shuffleArray rs xs = ys"
proof (induction xs arbitrary: ys)
  case Nil
  then show ?case by simp
next
  case (Cons x xs)
  from Cons.prems have "x \<in> set ys"
    by (metis list.set_intros(1) mset_eq_setD)
  then obtain as bs where ys: "ys = as @ x # bs"
    by (meson split_list)
  with Cons.prems have "mset (as @ bs) = mset xs"
    by simp
  with Cons.IH obtain rs where "shuffleArray rs xs = as @ bs"
    by blast
  with ys have "shuffleArray (length as # rs) (x # xs) = ys"
    by (simp add: Let_def)
  then show ?case
    by blast
qed

lemma cardPairs_length: "length (cardPairs n fs) = 2 * length fs"
  by (induction n fs rule: cardPairs.induct) simp_all

lemma cardPairs_count:
  "length (filter (\<lambda>c. flavour c = e) (cardPairs n fs)) = 2 * length (filter (\<lambda>f. snd f = e) fs)"
  by (induction n fs rule: cardPairs.induct) simp_all

lemma cardPairs_face_down: "list_all (\<lambda>c. \<not> isFlipped c \<and> \<not> isMatched c) (cardPairs n fs)"
  by (induction n fs rule: cardPairs.induct) simp_all

lemma initializeGame_fresh: "freshSession (initializeGame rs n)"
  by (simp add: freshSession_def initializeGame_def shuffleArray_length shuffleArray_filter
      shuffleArray_all cardPairs_length cardPairs_count cardPairs_face_down)
     (simp add: FLAVOURS_def)

lemma freshSession_settled: "freshSession g \<Longrightarrow> gameEndEffect g g = g"
  by (cases "cards g") (auto simp: freshSession_def gameEndEffect_def MAX_ATTEMPTS_def)

section \<open>The claims\<close>

subsection \<open>Clicks that the guards refuse\<close>

text \<open>
  C5: for a card that exists, \<^verbatim>\<open>selectCard(id)\<close> (\<^verbatim>\<open>handleCardClick\<close>) leaves the whole
  session as it is whenever the card it finds is already flipped or already matched,
  \<^verbatim>\<open>isResolving\<close> (\<^verbatim>\<open>isChecking\<close>) is true, the selection has 2 members, or the status is
  not playing. Nothing is raised and no timer is touched: the world after the click is
  the world before it.
\<close>

theorem selectCard_guarded_noop:
  assumes "find (\<lambda>c. card_id c = cardId) (cards (game w)) = Some c"
    and "isFlipped c \<or> isMatched c \<or> isChecking (game w) \<or>
         2 \<le> length (selectedCards (game w)) \<or> gameStatus (game w) \<noteq> Playing"
  shows "step w (Click cardId) = Inr w"
  using assms by (auto simp: handleCardClick_def)

text \<open>The four guards at work: a flipped card, a matched card, a click while a failed
  attempt waits for its reversion (two cards selected), and a click after the game is
  won.\<close>

theorem selectCard_guarded_noop_witness:
  "play [] [Click 0] = Inr (worldAfter [Click 0]) \<and>
   find (\<lambda>c. card_id c = 0) (cards (game (worldAfter [Click 0])))
     = Some \<lparr>card_id = 0, flavour = ''U+1F36B'', isFlipped = True, isMatched = False\<rparr> \<and>
   step (worldAfter [Click 0]) (Click 0) = Inr (worldAfter [Click 0]) \<and>
   play [] [Click 0, Click 1] = Inr (worldAfter [Click 0, Click 1]) \<and>
   find (\<lambda>c. card_id c = 1) (cards (game (worldAfter [Click 0, Click 1])))
     = Some \<lparr>card_id = 1, flavour = ''U+1F36B'', isFlipped = True, isMatched = True\<rparr> \<and>
   step (worldAfter [Click 0, Click 1]) (Click 1) = Inr (worldAfter [Click 0, Click 1]) \<and>
   play [] [Click 0, Click 2] = Inr (worldAfter [Click 0, Click 2]) \<and>
   find (\<lambda>c. card_id c = 4) (cards (game (worldAfter [Click 0, Click 2])))
     = Some \<lparr>card_id = 4, flavour = ''U+1F353'', isFlipped = False, isMatched = False\<rparr> \<and>
   isChecking (game (worldAfter [Click 0, Click 2])) \<and>
   length (selectedCards (game (worldAfter [Click 0, Click 2]))) = 2 \<and>
   step (worldAfter [Click 0, Click 2]) (Click 4) = Inr (worldAfter [Click 0, Click 2]) \<and>
   play [] sixMatches = Inr (worldAfter sixMatches) \<and>
   gameStatus (game (worldAfter sixMatches)) = Won \<and>
   find (\<lambda>c. card_id c = 7) (cards (game (worldAfter sixMatches)))
     = Some \<lparr>card_id = 7, flavour = ''U+1F33F'', isFlipped = True, isMatched = True\<rparr> \<and>
   step (worldAfter sixMatches) (Click 7) = Inr (worldAfter sixMatches)"
proof -
  have flipped:
    "find (\<lambda>c. card_id c = 0) (cards (game (worldAfter [Click 0])))
       = Some \<lparr>card_id = 0, flavour = ''U+1F36B'', isFlipped = True, isMatched = False\<rparr>"
    by code_simp
  have matched:
    "find (\<lambda>c. card_id c = 1) (cards (game (worldAfter [Click 0, Click 1])))
       = Some \<lparr>card_id = 1, flavour = ''U+1F36B'', isFlipped = True, isMatched = True\<rparr>"
    by code_simp
  have other:
    "find (\<lambda>c. card_id c = 4) (cards (game (worldAfter [Click 0, Click 2])))
       = Some \<lparr>card_id = 4, flavour = ''U+1F353'', isFlipped = False, isMatched = False\<rparr>"
    by code_simp
  have resolving: "isChecking (game (worldAfter [Click 0, Click 2]))"
    and pair: "length (selectedCards (game (worldAfter [Click 0, Click 2]))) = 2"
    by code_simp+
  have won: "gameStatus (game (worldAfter sixMatches)) = Won"
    by code_simp
  have last:
    "find (\<lambda>c. card_id c = 7) (cards (game (worldAfter sixMatches)))
       = Some \<lparr>card_id = 7, flavour = ''U+1F33F'', isFlipped = True, isMatched = True\<rparr>"
    by code_simp
  have plays:
    "play [] [Click 0] = Inr (worldAfter [Click 0])"
    "play [] [Click 0, Click 1] = Inr (worldAfter [Click 0, Click 1])"
    "play [] [Click 0, Click 2] = Inr (worldAfter [Click 0, Click 2])"
    "play [] sixMatches = Inr (worldAfter sixMatches)"
    by code_simp+
  note selectCard_guarded_noop [OF flipped] selectCard_guarded_noop [OF matched]
    selectCard_guarded_noop [OF other] selectCard_guarded_noop [OF last]
  with flipped matched other resolving pair won last plays show ?thesis
    by simp
qed

subsection \<open>Clicks on an identifier that no card has\<close>

text \<open>
  C4, as the code has it: for an identifier that belongs to no card of the session,
  \<^verbatim>\<open>selectCard(id)\<close> never changes the session. It returns silently when \<^verbatim>\<open>isResolving\<close>
  is true, the selection has 2 members or the status is not playing; otherwise
  \<^verbatim>\<open>find\<close> returns \<^verbatim>\<open>undefined\<close> and reading \<^verbatim>\<open>card.isFlipped\<close> raises a \<^verbatim>\<open>TypeError\<close>
  before any updater is called.
\<close>

theorem selectCard_unknown_id:
  assumes "cardId \<notin> set (map card_id (cards (game w)))"
  shows "step w (Click cardId) =
           (if isChecking (game w) \<or> 2 \<le> length (selectedCards (game w)) \<or>
               gameStatus (game w) \<noteq> Playing
            then Inr w else Inl TypeError)"
proof -
  from assms have "find (\<lambda>c. card_id c = cardId) (cards (game w)) = None"
    by (auto simp: find_None_iff)
  then show ?thesis
    by (simp add: handleCardClick_def)
qed

theorem selectCard_unknown_id_witness:
  "99 \<notin> set (map card_id (cards (game (worldAfter [])))) \<and>
   \<not> isChecking (game (worldAfter [])) \<and>
   length (selectedCards (game (worldAfter []))) = 0 \<and>
   gameStatus (game (worldAfter [])) = Playing \<and>
   step (worldAfter []) (Click 99) = Inl TypeError \<and>
   99 \<notin> set (map card_id (cards (game (worldAfter [Click 0, Click 2])))) \<and>
   isChecking (game (worldAfter [Click 0, Click 2])) \<and>
   step (worldAfter [Click 0, Click 2]) (Click 99) = Inr (worldAfter [Click 0, Click 2])"
proof -
  have fresh: "99 \<notin> set (map card_id (cards (game (worldAfter []))))"
    and idle: "\<not> isChecking (game (worldAfter []))"
      "length (selectedCards (game (worldAfter []))) = 0"
      "gameStatus (game (worldAfter [])) = Playing"
    by code_simp+
  have busy: "99 \<notin> set (map card_id (cards (game (worldAfter [Click 0, Click 2]))))"
    and resolving: "isChecking (game (worldAfter [Click 0, Click 2]))"
    by code_simp+
  from selectCard_unknown_id [OF fresh] selectCard_unknown_id [OF busy] fresh idle busy resolving
  show ?thesis
    by simp
qed

text \<open>C4 as the spec states it (a silent no-op, no error) fails on the just mounted
  hook: no card has the identifier 99, and the click raises.\<close>

theorem selectCard_unknown_id_raises:
  "play [] [] = Inr (worldAfter []) \<and>
   99 \<notin> set (map card_id (cards (game (worldAfter [])))) \<and>
   step (worldAfter []) (Click 99) = Inl TypeError"
  by code_simp

subsection \<open>Fresh sessions\<close>

text \<open>
  C9: \<^verbatim>\<open>initialize()\<close> (\<^verbatim>\<open>initializeGame\<close>, also as the hook is mounted) and \<^verbatim>\<open>restart()\<close>
  (\<^verbatim>\<open>restartGame\<close>) called in any world, whatever its status, produce a session with
  exactly 12 cards in which each of the 6 symbols appears exactly twice, attempts 0,
  status playing, an empty selection, \<^verbatim>\<open>isResolving\<close> false and no card flipped or
  matched. The effects that run after the render leave that session as it is, for
  every outcome of the shuffle.
\<close>

theorem initialize_restart_fresh:
  "length FLAVOURS = 6 \<and> distinct (map snd FLAVOURS) \<and>
   freshSession (initializeGame rs n) \<and>
   mount rs = Inr \<lparr>game = initializeGame rs 0, timers = [], nextId = 12\<rparr> \<and>
   step w (Restart rs) = Inr (w\<lparr>game := initializeGame rs (nextId w), nextId := nextId w + 12\<rparr>)"
proof -
  have six: "length FLAVOURS = 6" and "distinct (map snd FLAVOURS)"
    by (simp_all add: FLAVOURS_def)
  moreover have "freshSession (initializeGame rs n)"
    by (rule initializeGame_fresh)
  moreover have "mount rs = Inr \<lparr>game = initializeGame rs 0, timers = [], nextId = 12\<rparr>"
    using initializeGame_fresh [of rs 0]
    by (simp add: mount_def rerender_eq freshSession_settled six) (simp add: freshSession_def)
  moreover have "step w (Restart rs)
      = Inr (w\<lparr>game := initializeGame rs (nextId w), nextId := nextId w + 12\<rparr>)"
    using initializeGame_fresh [of rs "nextId w"]
    by (simp add: restartGame_def rerender_eq freshSession_settled six) (simp add: freshSession_def)
  ultimately show ?thesis
    by simp
qed

text \<open>A shuffled deck at mount, and a restart of a lost game.\<close>

theorem initialize_restart_fresh_witness:
  "map card_id (cards (initializeGame [3, 1, 4, 1, 5, 9, 2, 6] 0)) = [8, 1, 3, 0, 7, 5, 2, 6, 9, 4, 10, 11] \<and>
   freshSession (initializeGame [3, 1, 4, 1, 5, 9, 2, 6] 0) \<and>
   gameStatus (game (worldAfter lastMismatch)) = Lost \<and>
   step (worldAfter lastMismatch) (Restart [3, 1, 4, 1, 5, 9, 2, 6])
     = Inr ((worldAfter lastMismatch)\<lparr>game := initializeGame [3, 1, 4, 1, 5, 9, 2, 6] 12, nextId := 24\<rparr>) \<and>
   freshSession (initializeGame [3, 1, 4, 1, 5, 9, 2, 6] 12)"
proof -
  have "map card_id (cards (initializeGame [3, 1, 4, 1, 5, 9, 2, 6] 0)) = [8, 1, 3, 0, 7, 5, 2, 6, 9, 4, 10, 11]"
    by code_simp
  moreover have "gameStatus (game (worldAfter lastMismatch)) = Lost"
    and "nextId (worldAfter lastMismatch) = 12"
    by code_simp+
  ultimately show ?thesis
    using initialize_restart_fresh [of "[3, 1, 4, 1, 5, 9, 2, 6]" 0 "worldAfter lastMismatch"]
      initialize_restart_fresh [of "[3, 1, 4, 1, 5, 9, 2, 6]" 12 "worldAfter lastMismatch"]
    by simp
qed


subsection \<open>The cards keep their identity\<close>

text \<open>
  C10: every operation except restart preserves the identity and the order of the
  cards. A click (\<^verbatim>\<open>selectCard\<close>, with the match evaluation it may trigger) and the
  deferred reversion never change a card's \<^verbatim>\<open>id\<close> or symbol and never reorder, add or
  remove a card: only \<^verbatim>\<open>isFlipped\<close> and \<^verbatim>\<open>isMatched\<close> may differ afterwards.
\<close>

theorem cards_identity_preserved:
  assumes "step w e = Inr w'" and "e = Click cardId \<or> e = Timeout"
  shows "map card_id (cards (game w')) = map card_id (cards (game w)) \<and>
         map flavour (cards (game w')) = map flavour (cards (game w)) \<and>
         length (cards (game w')) = length (cards (game w))"
proof -
  have "map cardIdentity (cards (game w')) = map cardIdentity (cards (game w))"
  proof (cases "e = Timeout")
    case True
    with assms(1) show ?thesis
      by (auto simp: flipBack_fields split: list.splits dest!: rerender_identity)
  next
    case False
    with assms(2) have e: "e = Click cardId" by simp
    show ?thesis
    proof (cases "handleCardClick (game w) cardId")
      case (Inl err)
      with assms(1) e show ?thesis by simp
    next
      case (Inr r)
      with assms(1) e show ?thesis
        by (cases r)
           (auto simp: flipCard_fields dest!: rerender_identity dest: handleCardClick_accepts(1))
    qed
  qed
  then show ?thesis
    by (rule identity_projections)
qed

text \<open>A click that completes a match, and a reversion that flips two cards back.\<close>

theorem cards_identity_preserved_witness:
  "step (worldAfter [Click 0]) (Click 1) = Inr (worldAfter [Click 0, Click 1]) \<and>
   map card_id (cards (game (worldAfter [Click 0, Click 1]))) = [0, 1, 2, 3, 4, 5, 6, 7, 8, 9, 10, 11] \<and>
   map card_id (cards (game (worldAfter [Click 0]))) = [0, 1, 2, 3, 4, 5, 6, 7, 8, 9, 10, 11] \<and>
   map flavour (cards (game (worldAfter [Click 0, Click 1])))
     = map flavour (cards (game (worldAfter [Click 0]))) \<and>
   step (worldAfter [Click 0, Click 2]) Timeout = Inr (worldAfter [Click 0, Click 2, Timeout]) \<and>
   map card_id (cards (game (worldAfter [Click 0, Click 2, Timeout])))
     = map card_id (cards (game (worldAfter [Click 0, Click 2]))) \<and>
   map flavour (cards (game (worldAfter [Click 0, Click 2, Timeout])))
     = map flavour (cards (game (worldAfter [Click 0, Click 2]))) \<and>
   map isFlipped (cards (game (worldAfter [Click 0, Click 2, Timeout])))
     \<noteq> map isFlipped (cards (game (worldAfter [Click 0, Click 2])))"
proof -
  have click: "step (worldAfter [Click 0]) (Click 1) = Inr (worldAfter [Click 0, Click 1])"
    by code_simp
  have timeout: "step (worldAfter [Click 0, Click 2]) Timeout = Inr (worldAfter [Click 0, Click 2, Timeout])"
    by code_simp
  have ids: "map card_id (cards (game (worldAfter [Click 0]))) = [0, 1, 2, 3, 4, 5, 6, 7, 8, 9, 10, 11]"
    by code_simp
  have flips: "map isFlipped (cards (game (worldAfter [Click 0, Click 2, Timeout])))
     \<noteq> map isFlipped (cards (game (worldAfter [Click 0, Click 2])))"
    by code_simp
  from cards_identity_preserved [OF click, of 1] cards_identity_preserved [OF timeout, of 0]
    click timeout ids flips
  show ?thesis
    by simp
qed

subsection \<open>The order of the end-of-game checks\<close>

text \<open>
  C6: the end-condition evaluation checks the win before the loss. For every session
  still playing in which all cards are matched and \<^verbatim>\<open>attempts\<close> equals 15, the effect's
  updater sets the status to won; the render cycle ends with status won whatever else
  it has to do, and when no pair waits for evaluation it changes nothing but the status.
\<close>

theorem win_checked_before_loss:
  assumes "gameStatus (game w) = Playing"
    and "list_all isMatched (cards (game w))"
    and "attempts (game w) = MAX_ATTEMPTS"
  shows "gameEndEffect (game w) (game w) = (game w)\<lparr>gameStatus := Won\<rparr> \<and>
         (length (selectedCards (game w)) \<noteq> 2 \<longrightarrow>
            rerender changed w = Inr (w\<lparr>game := (game w)\<lparr>gameStatus := Won\<rparr>\<rparr>)) \<and>
         (rerender changed w = Inr w' \<longrightarrow> gameStatus (game w') = Won)"
proof -
  from assms have won: "gameEndEffect (game w) (game w) = (game w)\<lparr>gameStatus := Won\<rparr>"
    by (simp add: gameEndEffect_def)
  then have idle: "length (selectedCards (game w)) \<noteq> 2 \<longrightarrow>
      rerender changed w = Inr (w\<lparr>game := (game w)\<lparr>gameStatus := Won\<rparr>\<rparr>)"
    by (simp add: rerender_no_pair)
  have "gameStatus (game w') = Won" if r: "rerender changed w = Inr w'"
  proof (cases "changed \<and> length (selectedCards (game w)) = 2")
    case False
    with r won show ?thesis
      by (auto simp: rerender_eq)
  next
    case True
    with r won obtain q' scheduled replaced where
      c: "checkForMatch (game w) ((game w)\<lparr>gameStatus := Won\<rparr>) = Inr (q', scheduled, replaced)"
      and w': "w' = w\<lparr>game := gameEndEffect q' q', timers := timers w @ scheduled\<rparr>"
      by (auto simp: rerender_eq split: sum.splits prod.splits)
    from checkForMatch_status [OF c] have "gameStatus q' = Won"
      by simp
    with w' show ?thesis
      by (simp add: gameEndEffect_finished)
  qed
  with won idle show ?thesis
    by simp
qed

text \<open>The game won with its fifteenth attempt: the state rendered after the last match
  has all 12 cards matched and 15 attempts, and the play ends won.\<close>

theorem win_checked_before_loss_witness:
  "gameStatus (game lastMatchRender) = Playing \<and>
   list_all isMatched (cards (game lastMatchRender)) \<and>
   length (cards (game lastMatchRender)) = 12 \<and>
   attempts (game lastMatchRender) = 15 \<and>
   rerender True lastMatchRender = Inr (lastMatchRender\<lparr>game := (game lastMatchRender)\<lparr>gameStatus := Won\<rparr>\<rparr>) \<and>
   play [] lateWin = Inr (lastMatchRender\<lparr>game := (game lastMatchRender)\<lparr>gameStatus := Won\<rparr>\<rparr>)"
proof -
  have playing: "gameStatus (game lastMatchRender) = Playing"
    and matched: "list_all isMatched (cards (game lastMatchRender))"
    and twelve: "length (cards (game lastMatchRender)) = 12"
    and fifteen: "attempts (game lastMatchRender) = 15"
    and idle: "length (selectedCards (game lastMatchRender)) \<noteq> 2"
    by code_simp+
  have played: "play [] lateWin = Inr (lastMatchRender\<lparr>game := (game lastMatchRender)\<lparr>gameStatus := Won\<rparr>\<rparr>)"
    by code_simp
  from fifteen have cap: "attempts (game lastMatchRender) = MAX_ATTEMPTS"
    by (simp add: MAX_ATTEMPTS_def)
  from win_checked_before_loss [OF playing matched cap, of True] idle playing matched twelve fifteen played
  show ?thesis
    by simp
qed

subsection \<open>The attempts counter\<close>

text \<open>
  C8, as the code has it: in every world the mounted hook can reach, by any sequence of
  clicks, restarts and timer callbacks, \<^verbatim>\<open>attempts\<close> is at most 15, and it is at most 15
  after the next event too; a click or a timer callback never decreases it, and
  \<^verbatim>\<open>restart()\<close> resets it to 0.
\<close>

theorem attempts_bounded_monotone:
  assumes "reachable w" and "step w e = Inr w'"
  shows "attempts (game w) \<le> MAX_ATTEMPTS \<and> attempts (game w') \<le> MAX_ATTEMPTS \<and>
         (case e of
            Restart rs \<Rightarrow> attempts (game w') = 0
          | _ \<Rightarrow> attempts (game w) \<le> attempts (game w'))"
proof -
  from assms have "reachable w'"
    by (rule reachable_step)
  with assms(1) have "attempts (game w) \<le> MAX_ATTEMPTS" and "attempts (game w') \<le> MAX_ATTEMPTS"
    by (simp_all add: reachable_attempts)
  moreover from step_attempts [OF assms(2) reachable_settled [OF assms(1)]]
  have "case e of Restart rs \<Rightarrow> attempts (game w') = 0
        | _ \<Rightarrow> attempts (game w) \<le> attempts (game w')"
    by (cases e) auto
  ultimately show ?thesis
    by simp
qed

text \<open>The fifteenth failed attempt: the counter goes from 14 to 15 and stays there.\<close>

theorem attempts_bounded_monotone_witness:
  "reachable (worldAfter (butlast lastMismatch)) \<and>
   step (worldAfter (butlast lastMismatch)) (Click 2) = Inr (worldAfter lastMismatch) \<and>
   attempts (game (worldAfter (butlast lastMismatch))) = 14 \<and>
   attempts (game (worldAfter lastMismatch)) = 15 \<and>
   step (worldAfter lastMismatch) Timeout = Inr (worldAfter (lastMismatch @ [Timeout])) \<and>
   attempts (game (worldAfter (lastMismatch @ [Timeout]))) = 15 \<and>
   step (worldAfter lastMismatch) (Click 4) = Inr (worldAfter lastMismatch)"
proof -
  have "play [] (butlast lastMismatch) = Inr (worldAfter (butlast lastMismatch))"
    by code_simp
  then have before: "reachable (worldAfter (butlast lastMismatch))"
    by (rule play_reachable)
  have "play [] lastMismatch = Inr (worldAfter lastMismatch)"
    by code_simp
  then have after: "reachable (worldAfter lastMismatch)"
    by (rule play_reachable)
  have click: "step (worldAfter (butlast lastMismatch)) (Click 2) = Inr (worldAfter lastMismatch)"
    and timeout: "step (worldAfter lastMismatch) Timeout = Inr (worldAfter (lastMismatch @ [Timeout]))"
    and refused: "step (worldAfter lastMismatch) (Click 4) = Inr (worldAfter lastMismatch)"
    by code_simp+
  have counts: "attempts (game (worldAfter (butlast lastMismatch))) = 14"
    "attempts (game (worldAfter lastMismatch)) = 15"
    "attempts (game (worldAfter (lastMismatch @ [Timeout]))) = 15"
    by code_simp+
  from attempts_bounded_monotone [OF before click] attempts_bounded_monotone [OF after timeout]
    before click timeout refused counts
  show ?thesis
    by simp
qed

text \<open>C8 as the spec states it (non-decreasing across every sequence of actions) fails
  at a restart: a game won in 6 attempts is restarted, and the counter falls to 0.\<close>

theorem attempts_reset_by_restart:
  "play [] sixMatches = Inr (worldAfter sixMatches) \<and>
   gameStatus (game (worldAfter sixMatches)) = Won \<and>
   attempts (game (worldAfter sixMatches)) = 6 \<and>
   step (worldAfter sixMatches) (Restart []) = Inr (worldAfter (sixMatches @ [Restart []])) \<and>
   attempts (game (worldAfter (sixMatches @ [Restart []]))) = 0"
  by code_simp

subsection \<open>Match evaluation of an equal pair\<close>

text \<open>
  C7: in every reachable world, when a click is accepted, completes the selection to two
  cards and the two selected cards have the same symbol, the step ends with both cards
  \<^verbatim>\<open>isMatched = true\<close> (and no other card changed), \<^verbatim>\<open>attempts\<close> increased by exactly 1,
  the selection empty, \<^verbatim>\<open>isResolving\<close> false and no timer scheduled; the status is won
  if and only if all cards are matched then.
\<close>

theorem match_evaluation_equal:
  assumes "reachable w"
    and "handleCardClick (game w) b = Inr (Some g)"
    and "selectedCards g = [a, b]"
    and "find (\<lambda>c. card_id c = a) (cards g) = Some ca"
    and "find (\<lambda>c. card_id c = b) (cards g) = Some cb"
    and "flavour ca = flavour cb"
  shows "\<exists>w'. step w (Click b) = Inr w' \<and>
           cards (game w') =
             map (\<lambda>c. if card_id c = a \<or> card_id c = b then c\<lparr>isMatched := True\<rparr> else c) (cards g) \<and>
           list_all (\<lambda>c. (card_id c = a \<or> card_id c = b) \<longrightarrow> isMatched c) (cards (game w')) \<and>
           attempts (game w') = attempts (game w) + 1 \<and>
           selectedCards (game w') = [] \<and>
           \<not> isChecking (game w') \<and>
           timers w' = timers w \<and>
           (gameStatus (game w') = Won \<longleftrightarrow> list_all isMatched (cards (game w')))"
proof -
  let ?q = "markMatched a b (startCheck g)"
  let ?w' = "w\<lparr>game := gameEndEffect ?q ?q\<rparr>"
  from assms(1) have settled: "\<not> gameEndFires (game w)"
    by (rule reachable_settled)
  from accepted_not_ended [OF assms(2) settled] have idle: "gameEndEffect g g = g"
    by (simp add: gameEndEffect_idle)
  from assms(2) have g: "g = flipCard b (game w)" and playing: "gameStatus (game w) = Playing"
    by (auto dest: handleCardClick_accepts)
  from assms(3-6) idle have "rerender True (w\<lparr>game := g\<rparr>) = Inr ?w'"
    by (simp add: rerender_eq checkForMatch_equal)
  with assms(2) have stepped: "step w (Click b) = Inr ?w'"
    by simp
  have cards: "cards (game ?w') =
      map (\<lambda>c. if card_id c = a \<or> card_id c = b then c\<lparr>isMatched := True\<rparr> else c) (cards g)"
    by (simp add: gameEndEffect_fields markMatched_def startCheck_def)
  then have both: "list_all (\<lambda>c. (card_id c = a \<or> card_id c = b) \<longrightarrow> isMatched c) (cards (game ?w'))"
    by (auto simp: list_all_iff)
  have fields: "attempts (game ?w') = attempts (game w) + 1" "selectedCards (game ?w') = []"
    "\<not> isChecking (game ?w')" "timers ?w' = timers w"
    by (simp_all add: gameEndEffect_fields markMatched_def startCheck_def g flipCard_fields)
  have "gameStatus ?q = Playing"
    by (simp add: markMatched_def startCheck_def g flipCard_fields playing)
  then have "gameStatus (gameEndEffect ?q ?q) = Won \<longleftrightarrow> list_all isMatched (cards ?q)"
    by (simp add: gameEndEffect_def)
  then have "gameStatus (game ?w') = Won \<longleftrightarrow> list_all isMatched (cards (game ?w'))"
    by (simp add: gameEndEffect_fields)
  with stepped cards both fields show ?thesis
    by blast
qed

text \<open>The first pair of a game (the game goes on) and the sixth (the game is won).\<close>

theorem match_evaluation_equal_witness:
  "reachable (worldAfter [Click 0]) \<and>
   handleCardClick (game (worldAfter [Click 0])) 1 = Inr (Some (flipCard 1 (game (worldAfter [Click 0])))) \<and>
   selectedCards (flipCard 1 (game (worldAfter [Click 0]))) = [0, 1] \<and>
   step (worldAfter [Click 0]) (Click 1) = Inr (worldAfter [Click 0, Click 1]) \<and>
   map isMatched (cards (game (worldAfter [Click 0, Click 1])))
     = [True, True, False, False, False, False, False, False, False, False, False, False] \<and>
   attempts (game (worldAfter [Click 0, Click 1])) = 1 \<and>
   gameStatus (game (worldAfter [Click 0, Click 1])) = Playing \<and>
   reachable (worldAfter (butlast sixMatches)) \<and>
   step (worldAfter (butlast sixMatches)) (Click 11) = Inr (worldAfter sixMatches) \<and>
   list_all isMatched (cards (game (worldAfter sixMatches))) \<and>
   attempts (game (worldAfter sixMatches)) = 6 \<and>
   gameStatus (game (worldAfter sixMatches)) = Won"
proof -
  let ?w = "worldAfter [Click 0]" and ?v = "worldAfter (butlast sixMatches)"
  have "play [] [Click 0] = Inr ?w"
    by code_simp
  then have first: "reachable ?w"
    by (rule play_reachable)
  have "play [] (butlast sixMatches) = Inr ?v"
    by code_simp
  then have sixth: "reachable ?v"
    by (rule play_reachable)
  have accept: "handleCardClick (game ?w) 1 = Inr (Some (flipCard 1 (game ?w)))"
    and pair: "selectedCards (flipCard 1 (game ?w)) = [0, 1]"
    by code_simp+
  have accept': "handleCardClick (game ?v) 11 = Inr (Some (flipCard 11 (game ?v)))"
    and pair': "selectedCards (flipCard 11 (game ?v)) = [10, 11]"
    and c10: "find (\<lambda>c. card_id c = 10) (cards (flipCard 11 (game ?v)))
       = Some \<lparr>card_id = 10, flavour = ''U+1F34B'', isFlipped = True, isMatched = False\<rparr>"
    and c11: "find (\<lambda>c. card_id c = 11) (cards (flipCard 11 (game ?v)))
       = Some \<lparr>card_id = 11, flavour = ''U+1F34B'', isFlipped = True, isMatched = False\<rparr>"
    by code_simp+
  have steps: "step ?w (Click 1) = Inr (worldAfter [Click 0, Click 1])"
    "step ?v (Click 11) = Inr (worldAfter sixMatches)"
    by code_simp+
  have outcome: "map isMatched (cards (game (worldAfter [Click 0, Click 1])))
     = [True, True, False, False, False, False, False, False, False, False, False, False]"
    "attempts (game (worldAfter [Click 0, Click 1])) = 1"
    "gameStatus (game (worldAfter [Click 0, Click 1])) = Playing"
    "list_all isMatched (cards (game (worldAfter sixMatches)))"
    "attempts (game (worldAfter sixMatches)) = 6"
    by code_simp+
  from match_evaluation_equal [OF sixth accept' pair' c10 c11]
  obtain w' where "step ?v (Click 11) = Inr w'"
    and "gameStatus (game w') = Won \<longleftrightarrow> list_all isMatched (cards (game w'))"
    by auto
  with steps(2) outcome(4) have won: "gameStatus (game (worldAfter sixMatches)) = Won"
    by simp
  show ?thesis
    by (intro conjI; fact)
qed

subsection \<open>Losing on a failed attempt\<close>




subsection \<open>After the game has ended\<close>

text \<open>
  C2, as the code has it: in every session whose status is won or lost, a click changes
  nothing and raises nothing. A pending reversion callback still runs: it sets
  \<^verbatim>\<open>isFlipped\<close> to false on its two cards, empties the selection and sets \<^verbatim>\<open>isResolving\<close>
  to false, but it leaves \<^verbatim>\<open>attempts\<close>, the status and every card's \<^verbatim>\<open>id\<close>, symbol and
  \<^verbatim>\<open>isMatched\<close> as they are. With no callback pending nothing changes until
  \<^verbatim>\<open>restart()\<close>.
\<close>

theorem finished_session_frame:
  assumes "gameStatus (game w) \<noteq> Playing"
  shows "step w (Click cardId) = Inr w \<and>
         (timers w = [] \<longrightarrow> step w Timeout = Inr w) \<and>
         (timers w = (a, b) # ts \<longrightarrow>
            (let w' = w\<lparr>game := (game w)
                           \<lparr>cards := map (\<lambda>c. if card_id c = a \<or> card_id c = b
                                                then c\<lparr>isFlipped := False\<rparr> else c)
                                        (cards (game w)),
                            selectedCards := [],
                            isChecking := False\<rparr>,
                         timers := ts\<rparr>
             in step w Timeout = Inr w' \<and>
                list_all (\<lambda>c. (card_id c = a \<or> card_id c = b) \<longrightarrow> \<not> isFlipped c)
                  (cards (game w')) \<and>
                selectedCards (game w') = [] \<and>
                \<not> isChecking (game w'))) \<and>
         (step w Timeout = Inr v \<longrightarrow>
            attempts (game v) = attempts (game w) \<and>
            gameStatus (game v) = gameStatus (game w) \<and>
            map card_id (cards (game v)) = map card_id (cards (game w)) \<and>
            map flavour (cards (game v)) = map flavour (cards (game w)) \<and>
            map isMatched (cards (game v)) = map isMatched (cards (game w)))"
proof -
  let ?w' = "w\<lparr>game := (game w)
                    \<lparr>cards := map (\<lambda>c. if card_id c = a \<or> card_id c = b
                                         then c\<lparr>isFlipped := False\<rparr> else c)
                                 (cards (game w)),
                     selectedCards := [],
                     isChecking := False\<rparr>,
                  timers := ts\<rparr>"
  from assms have click: "step w (Click cardId) = Inr w"
    by (simp add: handleCardClick_def)
  have timeout: "step w Timeout =
      (case timers w of
         [] \<Rightarrow> Inr w
       | (a, b) # ts \<Rightarrow> Inr (w\<lparr>game := flipBack a b (game w), timers := ts\<rparr>))"
    using assms
    by (auto simp: rerender_no_pair flipBack_fields gameEndEffect_finished split: list.splits)
  then have none: "timers w = [] \<longrightarrow> step w Timeout = Inr w"
    by simp
  from timeout have pending: "timers w = (a, b) # ts \<longrightarrow>
      step w Timeout = Inr ?w' \<and>
      list_all (\<lambda>c. (card_id c = a \<or> card_id c = b) \<longrightarrow> \<not> isFlipped c) (cards (game ?w')) \<and>
      selectedCards (game ?w') = [] \<and>
      \<not> isChecking (game ?w')"
    by (auto simp: flipBack_def list_all_iff)
  have frame: "step w Timeout = Inr v \<longrightarrow>
        attempts (game v) = attempts (game w) \<and>
        gameStatus (game v) = gameStatus (game w) \<and>
        map card_id (cards (game v)) = map card_id (cards (game w)) \<and>
        map flavour (cards (game v)) = map flavour (cards (game w)) \<and>
        map isMatched (cards (game v)) = map isMatched (cards (game w))"
  proof
    assume fired: "step w Timeout = Inr v"
    show "attempts (game v) = attempts (game w) \<and>
        gameStatus (game v) = gameStatus (game w) \<and>
        map card_id (cards (game v)) = map card_id (cards (game w)) \<and>
        map flavour (cards (game v)) = map flavour (cards (game w)) \<and>
        map isMatched (cards (game v)) = map isMatched (cards (game w))"
    proof (cases "timers w")
      case Nil
      with fired timeout show ?thesis by simp
    next
      case (Cons t ts')
      obtain a' b' where "t = (a', b')" by (cases t)
      with fired timeout Cons have v: "game v = flipBack a' b' (game w)"
        by auto
      from identity_projections [OF flipBack_fields(5) [of a' b' "game w"]] v show ?thesis
        by (simp add: flipBack_fields)
    qed
  qed
  from click none pending frame show ?thesis
    unfolding Let_def by (intro conjI)
qed

text \<open>A lost game with its last reversion pending, and a won game.\<close>

theorem finished_session_frame_witness:
  "gameStatus (game (worldAfter lastMismatch)) = Lost \<and>
   timers (worldAfter lastMismatch) = [(0, 2)] \<and>
   step (worldAfter lastMismatch) (Click 4) = Inr (worldAfter lastMismatch) \<and>
   step (worldAfter lastMismatch) Timeout = Inr (worldAfter (lastMismatch @ [Timeout])) \<and>
   map isFlipped (cards (game (worldAfter lastMismatch)))
     = [True, False, True, False, False, False, False, False, False, False, False, False] \<and>
   map isFlipped (cards (game (worldAfter (lastMismatch @ [Timeout]))))
     = [False, False, False, False, False, False, False, False, False, False, False, False] \<and>
   selectedCards (game (worldAfter (lastMismatch @ [Timeout]))) = [] \<and>
   \<not> isChecking (game (worldAfter (lastMismatch @ [Timeout]))) \<and>
   attempts (game (worldAfter (lastMismatch @ [Timeout]))) = 15 \<and>
   gameStatus (game (worldAfter (lastMismatch @ [Timeout]))) = Lost \<and>
   gameStatus (game (worldAfter sixMatches)) = Won \<and>
   timers (worldAfter sixMatches) = [] \<and>
   step (worldAfter sixMatches) (Click 4) = Inr (worldAfter sixMatches) \<and>
   step (worldAfter sixMatches) Timeout = Inr (worldAfter sixMatches)"
proof -
  let ?l = "worldAfter lastMismatch" and ?r = "worldAfter (lastMismatch @ [Timeout])"
  have lost: "gameStatus (game ?l) = Lost"
    and pending: "timers ?l = [(0, 2)]"
    and won: "gameStatus (game (worldAfter sixMatches)) = Won"
    and none: "timers (worldAfter sixMatches) = []"
    and timeout: "step ?l Timeout = Inr ?r"
    and fifteen: "attempts (game ?l) = 15"
    and faces: "map isFlipped (cards (game ?l))
       = [True, False, True, False, False, False, False, False, False, False, False, False]"
      "map isFlipped (cards (game ?r))
       = [False, False, False, False, False, False, False, False, False, False, False, False]"
    and cleared: "selectedCards (game ?r) = []"
    and idle: "\<not> isChecking (game ?r)"
    by code_simp+
  from lost have over: "gameStatus (game ?l) \<noteq> Playing"
    by simp
  from won have over': "gameStatus (game (worldAfter sixMatches)) \<noteq> Playing"
    by simp
  note lostFrame = finished_session_frame [OF over, of 4 0 2 "[]" ?r]
  note wonFrame = finished_session_frame [OF over', of 4 0 2 "[]" "worldAfter sixMatches"]
  from lostFrame have refused: "step ?l (Click 4) = Inr ?l"
    by (rule conjunct1)
  from lostFrame [THEN conjunct2, THEN conjunct2, THEN conjunct2, THEN mp, OF timeout]
  have "attempts (game ?r) = attempts (game ?l)"
    and "gameStatus (game ?r) = gameStatus (game ?l)"
    by (rule conjunct1, rule conjunct1 [OF conjunct2])
  with lost fifteen have same: "attempts (game ?r) = 15" and still: "gameStatus (game ?r) = Lost"
    by simp_all
  from wonFrame have "step (worldAfter sixMatches) (Click 4) = Inr (worldAfter sixMatches)"
    by (rule conjunct1)
  from wonFrame [THEN conjunct2, THEN conjunct1, THEN mp, OF none]
  have "step (worldAfter sixMatches) Timeout = Inr (worldAfter sixMatches)" .
  show ?thesis
    by (intro conjI; fact)
qed

text \<open>C2 as the spec states it (nothing but restart changes a finished session) fails
  after fifteen failed attempts: the session is lost, and the pending callback then
  changes the cards, the selection and \<^verbatim>\<open>isResolving\<close>.\<close>

theorem lost_session_still_reverted:
  "play [] lastMismatch = Inr (worldAfter lastMismatch) \<and>
   gameStatus (game (worldAfter lastMismatch)) = Lost \<and>
   step (worldAfter lastMismatch) Timeout = Inr (worldAfter (lastMismatch @ [Timeout])) \<and>
   selectedCards (game (worldAfter lastMismatch)) = [0, 2] \<and>
   selectedCards (game (worldAfter (lastMismatch @ [Timeout]))) = [] \<and>
   isChecking (game (worldAfter lastMismatch)) \<and>
   \<not> isChecking (game (worldAfter (lastMismatch @ [Timeout]))) \<and>
   map isFlipped (cards (game (worldAfter lastMismatch)))
     = [True, False, True, False, False, False, False, False, False, False, False, False] \<and>
   map isFlipped (cards (game (worldAfter (lastMismatch @ [Timeout]))))
     = [False, False, False, False, False, False, False, False, False, False, False, False]"
  by code_simp

subsection \<open>Restart and the pending reversion\<close>

text \<open>
  C1 asks \<^verbatim>\<open>restart()\<close> to cancel a pending reversion. \<^verbatim>\<open>restartGame\<close> only sets the
  state. The play below loses a game on its fifteenth failed attempt, restarts while
  the reversion of the cards 0 and 2 is pending, and selects the card 12 of the new
  session. The callback of the old session is still in the queue after the restart;
  when it fires it empties the selection of the new session, and the card 12 stays
  flipped, unselected and unmatched: a click on it is refused from then on.
\<close>

theorem restart_keeps_pending_reversion:
  "play [] lastMismatch = Inr (worldAfter lastMismatch) \<and>
   gameStatus (game (worldAfter lastMismatch)) = Lost \<and>
   timers (worldAfter lastMismatch) = [(0, 2)] \<and>
   step (worldAfter lastMismatch) (Restart []) = Inr (worldAfter (lastMismatch @ [Restart []])) \<and>
   freshSession (game (worldAfter (lastMismatch @ [Restart []]))) \<and>
   timers (worldAfter (lastMismatch @ [Restart []])) = [(0, 2)] \<and>
   step (worldAfter (lastMismatch @ [Restart []])) (Click 12)
     = Inr (worldAfter (lastMismatch @ [Restart [], Click 12])) \<and>
   selectedCards (game (worldAfter (lastMismatch @ [Restart [], Click 12]))) = [12] \<and>
   step (worldAfter (lastMismatch @ [Restart [], Click 12])) Timeout
     = Inr (worldAfter (lastMismatch @ [Restart [], Click 12, Timeout])) \<and>
   selectedCards (game (worldAfter (lastMismatch @ [Restart [], Click 12, Timeout]))) = [] \<and>
   map isFlipped (cards (game (worldAfter (lastMismatch @ [Restart [], Click 12, Timeout]))))
     = [True, False, False, False, False, False, False, False, False, False, False, False] \<and>
   map card_id (cards (game (worldAfter (lastMismatch @ [Restart [], Click 12, Timeout]))))
     = [12, 13, 14, 15, 16, 17, 18, 19, 20, 21, 22, 23] \<and>
   step (worldAfter (lastMismatch @ [Restart [], Click 12, Timeout])) (Click 12)
     = Inr (worldAfter (lastMismatch @ [Restart [], Click 12, Timeout]))"
  by code_simp

end
